theory Spec2Isabelle
  imports Main
begin

section \<open>JavaScript values and equality\<close>

text \<open>
  The primitive values a selection state or a row input can hold. The numbers are the
  integers (array positions are), negative zero and NaN: \<open>JNum 0\<close> is \<^verbatim>\<open>+0\<close>, and the
  two zeros and NaN are where \<^verbatim>\<open>==\<close>, \<^verbatim>\<open>===\<close> and \<^verbatim>\<open>Object.is\<close> differ on numbers.
  Strings and objects are left out of this type, since comparing them with a number
  goes through string parsing and floating point.
\<close>

datatype jsval = JUndefined | JNull | JBool bool | JNum int | JNegZero | JNaN

text \<open>ToNumber on a boolean.\<close>

fun ToNumber_bool :: "bool \<Rightarrow> int" where
  "ToNumber_bool True = 1"
| "ToNumber_bool False = 0"

text \<open>
  Equality of two numbers (Number::equal): NaN equals nothing, the two zeros are equal.
  On a value that is no number the result is \<open>False\<close>.
\<close>

fun number_equal :: "jsval \<Rightarrow> jsval \<Rightarrow> bool" where
  "number_equal (JNum a) (JNum b) = (a = b)"
| "number_equal (JNum a) JNegZero = (a = 0)"
| "number_equal JNegZero (JNum b) = (b = 0)"
| "number_equal JNegZero JNegZero = True"
| "number_equal _ _ = False"

text \<open>
  The operator \<^verbatim>\<open>==\<close> (IsLooselyEqual): equal types compare by value, \<^verbatim>\<open>null\<close> and
  \<^verbatim>\<open>undefined\<close> equal each other and nothing else, a boolean is converted to a number
  before it is compared with a number.
\<close>

fun loose_eq :: "jsval \<Rightarrow> jsval \<Rightarrow> bool" where
  "loose_eq JUndefined JUndefined = True"
| "loose_eq JNull JNull = True"
| "loose_eq JUndefined JNull = True"
| "loose_eq JNull JUndefined = True"
| "loose_eq (JBool a) (JBool b) = (a = b)"
| "loose_eq (JNum a) (JNum b) = (a = b)"
| "loose_eq (JBool a) (JNum b) = (ToNumber_bool a = b)"
| "loose_eq (JNum a) (JBool b) = (a = ToNumber_bool b)"
| "loose_eq (JBool a) JNegZero = (ToNumber_bool a = 0)"
| "loose_eq JNegZero (JBool b) = (0 = ToNumber_bool b)"
| "loose_eq (JNum a) JNegZero = number_equal (JNum a) JNegZero"
| "loose_eq JNegZero (JNum b) = number_equal JNegZero (JNum b)"
| "loose_eq JNegZero JNegZero = number_equal JNegZero JNegZero"
| "loose_eq _ _ = False"

text \<open>The operator \<^verbatim>\<open>===\<close> (IsStrictlyEqual): same type and same value.\<close>

fun strict_eq :: "jsval \<Rightarrow> jsval \<Rightarrow> bool" where
  "strict_eq JUndefined JUndefined = True"
| "strict_eq JNull JNull = True"
| "strict_eq (JBool a) (JBool b) = (a = b)"
| "strict_eq (JNum a) (JNum b) = (a = b)"
| "strict_eq (JNum a) JNegZero = number_equal (JNum a) JNegZero"
| "strict_eq JNegZero (JNum b) = number_equal JNegZero (JNum b)"
| "strict_eq JNegZero JNegZero = number_equal JNegZero JNegZero"
| "strict_eq _ _ = False"

text \<open>ToBoolean, as the conditional operator applies it.\<close>

fun ToBoolean :: "jsval \<Rightarrow> bool" where
  "ToBoolean JUndefined = False"
| "ToBoolean JNull = False"
| "ToBoolean (JBool b) = b"
| "ToBoolean (JNum n) = (n \<noteq> 0)"
| "ToBoolean JNegZero = False"
| "ToBoolean JNaN = False"

datatype exn = TypeError

text \<open>
  A function object: its identity (the address it was allocated at) and what a call of
  it does to the world it closes over.
\<close>

datatype 'w fn = Fn nat "jsval \<Rightarrow> 'w \<Rightarrow> exn + 'w"

fun fn_ref :: "'w fn \<Rightarrow> nat" where
  "fn_ref (Fn r b) = r"

fun fn_body :: "'w fn \<Rightarrow> jsval \<Rightarrow> 'w \<Rightarrow> exn + 'w" where
  "fn_body (Fn r b) = b"

text \<open>Calling a value: \<^verbatim>\<open>undefined(...)\<close> raises a TypeError.\<close>

fun call :: "'w fn option \<Rightarrow> jsval \<Rightarrow> 'w \<Rightarrow> exn + 'w" where
  "call None v w = Inl TypeError"
| "call (Some (Fn r b)) v w = b v w"

section \<open>The row: SingleListItem\<close>

text \<open>
  The four inputs of a row. A missing input is \<^verbatim>\<open>undefined\<close>: \<open>JUndefined\<close> for
  \<open>index\<close> and \<open>isSelected\<close>, \<open>None\<close> for \<open>onClickHandler\<close> and the text.
\<close>

record 'w item_props =
  index :: jsval
  isSelected :: jsval
  onClickHandler :: "'w fn option"
  text_prop :: "string option"

text \<open>The rendered \<^verbatim>\<open><li>\<close>: its background, its click listener, its child.\<close>

record 'w li =
  backgroundColor :: string
  onClick :: "'w \<Rightarrow> exn + 'w"
  li_children :: "string option"

text \<open>
  \<^verbatim>\<open>WrappedSingleListItem\<close>. The render is run in a world \<open>w\<close> and returns the
  world it leaves: the listener \<^verbatim>\<open>() => onClickHandler(index)\<close> is built, not called.
\<close>

definition WrappedSingleListItem :: "'w item_props \<Rightarrow> 'w \<Rightarrow> 'w li \<times> 'w" where
  "WrappedSingleListItem props w =
     (\<lparr>backgroundColor = (if ToBoolean (isSelected props) then ''green'' else ''red''),
       onClick = (\<lambda>w'. call (onClickHandler props) (index props) w'),
       li_children = text_prop props\<rparr>, w)"

text \<open>
  \<^verbatim>\<open>WrappedSingleListItem.propTypes\<close>: every input is required, and of the declared
  type. A validator fails with a message that names the input: that it is required and
  has the value \<^verbatim>\<open>undefined\<close> or \<^verbatim>\<open>null\<close>, or that it has a type other than the
  expected one. Two failures with the same message are the same failure.
\<close>

datatype failure = Required string jsval | Invalid string string string

fun check_number :: "string \<Rightarrow> jsval \<Rightarrow> failure list" where
  "check_number name JUndefined = [Required name JUndefined]"
| "check_number name JNull = [Required name JNull]"
| "check_number name (JBool b) = [Invalid name ''boolean'' ''number'']"
| "check_number name (JNum n) = []"
| "check_number name JNegZero = []"
| "check_number name JNaN = []"

fun check_bool :: "string \<Rightarrow> jsval \<Rightarrow> failure list" where
  "check_bool name JUndefined = [Required name JUndefined]"
| "check_bool name JNull = [Required name JNull]"
| "check_bool name (JBool b) = []"
| "check_bool name (JNum n) = [Invalid name ''number'' ''boolean'']"
| "check_bool name JNegZero = [Invalid name ''number'' ''boolean'']"
| "check_bool name JNaN = [Invalid name ''number'' ''boolean'']"

fun check_present :: "string \<Rightarrow> 'a option \<Rightarrow> failure list" where
  "check_present name None = [Required name JUndefined]"
| "check_present name (Some v) = []"

text \<open>
  The failures of the four declared validators on the inputs of one row, in the order
  of the declaration.
\<close>

definition propTypes :: "'w item_props \<Rightarrow> failure list" where
  "propTypes pr =
     check_number ''index'' (index pr) @
     check_bool ''isSelected'' (isSelected pr) @
     check_present ''onClickHandler'' (onClickHandler pr) @
     check_present ''text'' (text_prop pr)"

text \<open>
  The development check (\<^verbatim>\<open>checkPropTypes\<close>) prints a warning for a failure only when
  its message is not among those already printed (\<open>loggedTypeFailures\<close>), and then
  remembers it. It returns the warnings it prints and the messages remembered; it
  raises nothing, and the render does not depend on it.
\<close>

fun log_failures :: "failure list \<Rightarrow> failure list \<Rightarrow> failure list \<times> failure list" where
  "log_failures [] loggedTypeFailures = ([], loggedTypeFailures)"
| "log_failures (f # fs) loggedTypeFailures =
     (if f \<in> set loggedTypeFailures then log_failures fs loggedTypeFailures
      else (let (printed, logged) = log_failures fs (f # loggedTypeFailures)
            in (f # printed, logged)))"

definition checkPropTypes :: "'w item_props \<Rightarrow> failure list \<Rightarrow> failure list \<times> failure list" where
  "checkPropTypes pr loggedTypeFailures = log_failures (propTypes pr) loggedTypeFailures"




definition declared :: "string list" where
  "declared = [''index'', ''isSelected'', ''onClickHandler'', ''text'']"








section \<open>The list: List\<close>

record item =
  id' :: string
  text' :: string

text \<open>
  The \<^verbatim>\<open>items\<close> input: missing, \<^verbatim>\<open>null\<close>, or an array. An array is an object, so it
  carries its identity beside its elements.
\<close>

datatype items_prop = ItemsUndefined | ItemsNull | ItemsArr nat "item list"

text \<open>\<^verbatim>\<open>Object.is\<close> on the input: arrays are the same when they are the same object.\<close>

fun Object_is :: "items_prop \<Rightarrow> items_prop \<Rightarrow> bool" where
  "Object_is ItemsUndefined ItemsUndefined = True"
| "Object_is ItemsNull ItemsNull = True"
| "Object_is (ItemsArr r xs) (ItemsArr r' ys) = (r = r')"
| "Object_is _ _ = False"

text \<open>\<^verbatim>\<open>WrappedListComponent.defaultProps\<close>: a missing \<^verbatim>\<open>items\<close> is \<^verbatim>\<open>null\<close>.\<close>

fun defaultProps :: "items_prop \<Rightarrow> items_prop" where
  "defaultProps ItemsUndefined = ItemsNull"
| "defaultProps p = p"

text \<open>
  The hooks of one mounted List: the state cell of \<^verbatim>\<open>useState\<close>, the dependencies the
  effect last ran with, the function \<^verbatim>\<open>useCallback\<close> keeps with its dependencies, and
  the next free address for a function object. A cell is \<open>None\<close> before the first render.
\<close>

record hooks =
  selectedIndex :: "jsval option"
  effectDeps :: "items_prop list option"
  memoCallback :: "(nat \<times> items_prop list) option"
  nextRef :: nat

definition initial_hooks :: hooks where
  "initial_hooks = \<lparr>selectedIndex = None, effectDeps = None, memoCallback = None, nextRef = 0\<rparr>"

text \<open>Evaluating an arrow function allocates a new function object.\<close>

definition alloc :: "hooks \<Rightarrow> nat \<times> hooks" where
  "alloc h = (nextRef h, h\<lparr>nextRef := Suc (nextRef h)\<rparr>)"

definition useState :: "jsval \<Rightarrow> hooks \<Rightarrow> jsval \<times> hooks" where
  "useState init h =
     (case selectedIndex h of
        None \<Rightarrow> (init, h\<lparr>selectedIndex := Some init\<rparr>)
      | Some v \<Rightarrow> (v, h))"

definition setSelectedIndex :: "jsval \<Rightarrow> hooks \<Rightarrow> hooks" where
  "setSelectedIndex v h = h\<lparr>selectedIndex := Some v\<rparr>"

definition areHookInputsEqual :: "items_prop list \<Rightarrow> items_prop list \<Rightarrow> bool" where
  "areHookInputsEqual next prev \<longleftrightarrow> list_all2 Object_is next prev"

text \<open>\<^verbatim>\<open>useEffect\<close>: says whether the effect is to run after this render.\<close>

definition useEffect :: "items_prop list \<Rightarrow> hooks \<Rightarrow> bool \<times> hooks" where
  "useEffect deps h =
     (case effectDeps h of
        None \<Rightarrow> (True, h\<lparr>effectDeps := Some deps\<rparr>)
      | Some prev \<Rightarrow>
          if areHookInputsEqual deps prev then (False, h)
          else (True, h\<lparr>effectDeps := Some deps\<rparr>))"

text \<open>\<^verbatim>\<open>useCallback\<close>: the function kept from an earlier render, while the dependencies are the same.\<close>

definition useCallback :: "nat \<Rightarrow> items_prop list \<Rightarrow> hooks \<Rightarrow> nat \<times> hooks" where
  "useCallback f deps h =
     (case memoCallback h of
        None \<Rightarrow> (f, h\<lparr>memoCallback := Some (f, deps)\<rparr>)
      | Some (kept, prev) \<Rightarrow>
          if areHookInputsEqual deps prev then (kept, h)
          else (f, h\<lparr>memoCallback := Some (f, deps)\<rparr>))"

text \<open>The body of \<^verbatim>\<open>handleClick\<close>.\<close>

definition handleClick :: "jsval \<Rightarrow> hooks \<Rightarrow> exn + hooks" where
  "handleClick idx h = Inr (setSelectedIndex idx h)"

text \<open>An element \<^verbatim>\<open><SingleListItem key=... .../>\<close> and the \<^verbatim>\<open><ul>\<close> holding them.\<close>

record 'w element =
  key :: string
  props :: "'w item_props"

record 'w ul =
  textAlign :: string
  children :: "'w element list"

fun items_is_null :: "items_prop \<Rightarrow> bool" where
  "items_is_null ItemsUndefined = True"
| "items_is_null ItemsNull = True"
| "items_is_null (ItemsArr r xs) = False"

fun elements_of :: "items_prop \<Rightarrow> item list" where
  "elements_of (ItemsArr r xs) = xs"
| "elements_of _ = []"

text \<open>
  \<^verbatim>\<open>WrappedListComponent\<close>: the three hooks in the order of the source, the test for
  nothing to show, and the map over the items. It returns the output (\<open>None\<close> is
  \<^verbatim>\<open>null\<close>), whether the effect is to run, and the hooks.
\<close>

definition WrappedListComponent :: "items_prop \<Rightarrow> hooks \<Rightarrow> hooks ul option \<times> bool \<times> hooks" where
  "WrappedListComponent items h =
     (let (selected, h1) = useState JNull h;
          (effect, h2) = alloc h1;
          (run_effect, h3) = useEffect [items] h2;
          (f, h4) = alloc h3;
          (handleClick_ref, h5) = useCallback f [] h4
      in if items_is_null items \<or> length (elements_of items) = 0 then (None, run_effect, h5)
         else
           (Some \<lparr>textAlign = ''left'',
                  children = map (\<lambda>(idx, item).
                      \<lparr>key = id' item,
                       props = \<lparr>index = JNum (int idx),
                                isSelected = JBool (loose_eq selected (JNum (int idx))),
                                onClickHandler = Some (Fn handleClick_ref handleClick),
                                text_prop = Some (text' item)\<rparr>\<rparr>)
                    (enumerate 0 (elements_of items))\<rparr>,
            run_effect, h5))"

text \<open>
  One render and its commit: the effect \<^verbatim>\<open>setSelectedIndex(null)\<close> runs after the
  render when it is due, and a changed state renders the component again.
\<close>

definition render_commit :: "items_prop \<Rightarrow> hooks \<Rightarrow> hooks ul option \<times> hooks" where
  "render_commit items h =
     (let (out, run_effect, h1) = WrappedListComponent items h
      in if \<not> run_effect then (out, h1)
         else (let h2 = setSelectedIndex JNull h1
               in if selectedIndex h2 = selectedIndex h1 then (out, h2)
                  else (let (out', run_effect', h3) = WrappedListComponent items h2 in (out', h3))))"

text \<open>A mounted List: its current input, its hooks and what it last rendered.\<close>

record mounted =
  cur_items :: items_prop
  hk :: hooks
  dom :: "hooks ul option"

definition mount :: "items_prop \<Rightarrow> mounted" where
  "mount items =
     (let (out, h) = render_commit (defaultProps items) initial_hooks
      in \<lparr>cur_items = defaultProps items, hk = h, dom = out\<rparr>)"

text \<open>
  What happens to a mounted List: its parent renders it with an input, or the user
  clicks the row at a position of what is shown. \<^verbatim>\<open>List\<close> is \<^verbatim>\<open>memo(WrappedListComponent)\<close>,
  so the same input renders nothing anew. Arrays are not changed in place: an input
  that is the same object as the current one has the elements it had.
\<close>

datatype event = Rerender items_prop | Click nat

fun step :: "mounted \<Rightarrow> event \<Rightarrow> mounted" where
  "step inst (Rerender items) =
     (if Object_is (cur_items inst) (defaultProps items) then inst
      else (let (out, h) = render_commit (defaultProps items) (hk inst)
            in \<lparr>cur_items = defaultProps items, hk = h, dom = out\<rparr>))"
| "step inst (Click p) =
     (case dom inst of
        None \<Rightarrow> inst
      | Some u \<Rightarrow>
          if p < length (children u) then
            (case onClick (fst (WrappedSingleListItem (props (children u ! p)) (hk inst))) (hk inst) of
               Inl e \<Rightarrow> inst
             | Inr h \<Rightarrow>
                 if selectedIndex h = selectedIndex (hk inst) then inst\<lparr>hk := h\<rparr>
                 else (let (out, h') = render_commit (cur_items inst) h
                       in inst\<lparr>hk := h', dom := out\<rparr>))
          else inst)"

definition run :: "mounted \<Rightarrow> event list \<Rightarrow> mounted" where
  "run inst evs = foldl step inst evs"

text \<open>The rows on screen, as the flags they were given.\<close>

definition flags :: "mounted \<Rightarrow> jsval list" where
  "flags inst = (case dom inst of None \<Rightarrow> [] | Some u \<Rightarrow> map (\<lambda>e. isSelected (props e)) (children u))"

section \<open>Auxiliary definitions\<close>

text \<open>What a List with all its hooks set shows: the output of the component as a function of
  the kept handler, the selection and the input.\<close>

definition list_output :: "nat \<Rightarrow> jsval \<Rightarrow> items_prop \<Rightarrow> hooks ul option" where
  "list_output cb sel items =
     (if items_is_null items \<or> elements_of items = [] then None
      else Some \<lparr>textAlign = ''left'',
                 children = map (\<lambda>(idx, item).
                      \<lparr>key = id' item,
                       props = \<lparr>index = JNum (int idx),
                                isSelected = JBool (loose_eq sel (JNum (int idx))),
                                onClickHandler = Some (Fn cb handleClick),
                                text_prop = Some (text' item)\<rparr>\<rparr>)
                    (enumerate 0 (elements_of items))\<rparr>)"

text \<open>What holds of every List that was mounted and then driven by events.\<close>

definition mounted_ok :: "mounted \<Rightarrow> bool" where
  "mounted_ok m \<longleftrightarrow>
     memoCallback (hk m) = Some (1, []) \<and> effectDeps (hk m) = Some [cur_items m] \<and>
     (\<exists>sel. selectedIndex (hk m) = Some sel \<and>
        (sel = JNull \<or> (\<exists>n<length (elements_of (cur_items m)). sel = JNum (int n))) \<and>
        dom m = list_output 1 sel (cur_items m))"

text \<open>The elements a mounted List shows.\<close>

definition rows :: "mounted \<Rightarrow> hooks element list" where
  "rows m = (case dom m of None \<Rightarrow> [] | Some u \<Rightarrow> children u)"

text \<open>The flags one render of the component hands to its rows.\<close>

definition render_flags :: "items_prop \<Rightarrow> hooks \<Rightarrow> jsval list" where
  "render_flags items h =
     (case fst (WrappedListComponent items h) of
        None \<Rightarrow> []
      | Some u \<Rightarrow> map (\<lambda>e. isSelected (props e)) (children u))"

text \<open>The flags as the specification words them: the selection compared with each position
  by \<^verbatim>\<open>===\<close>.\<close>

definition strict_flags :: "jsval \<Rightarrow> items_prop \<Rightarrow> jsval list" where
  "strict_flags sel items =
     map (\<lambda>i. JBool (strict_eq sel (JNum (int i)))) [0..<length (elements_of items)]"

text \<open>Rendering the rows of a list one after the other, in one world.\<close>

fun render_rows :: "'w element list \<Rightarrow> 'w \<Rightarrow> 'w li list \<times> 'w" where
  "render_rows [] w = ([], w)"
| "render_rows (e # es) w =
     (let (l, w1) = WrappedSingleListItem (props e) w;
          (ls, w2) = render_rows es w1
      in (l # ls, w2))"

text \<open>Two collections to run the definitions on.\<close>

definition apple_banana :: "item list" where
  "apple_banana = [\<lparr>id' = ''a'', text' = ''Apple''\<rparr>, \<lparr>id' = ''b'', text' = ''Banana''\<rparr>]"

definition cherry :: "item list" where
  "cherry = [\<lparr>id' = ''c'', text' = ''Cherry''\<rparr>]"

text \<open>The handler identities one render of the component hands to its rows.\<close>

definition render_handlers :: "items_prop \<Rightarrow> hooks \<Rightarrow> nat option list" where
  "render_handlers items h =
     (case fst (WrappedListComponent items h) of
        None \<Rightarrow> []
      | Some u \<Rightarrow> map (\<lambda>e. map_option fn_ref (onClickHandler (props e))) (children u))"

text \<open>The identity of the function \<^verbatim>\<open>useCallback\<close> keeps.\<close>

definition kept_handler :: "hooks \<Rightarrow> nat option" where
  "kept_handler h = map_option fst (memoCallback h)"

section \<open>Lemmas about rendering and events\<close>

lemma WLC_initial:
  "WrappedListComponent items initial_hooks =
     (list_output 1 JNull items, True,
      \<lparr>selectedIndex = Some JNull, effectDeps = Some [items], memoCallback = Some (1, []), nextRef = 2\<rparr>)"
  by (simp add: WrappedListComponent_def initial_hooks_def useState_def alloc_def useEffect_def
      useCallback_def list_output_def areHookInputsEqual_def)

lemma WLC_mounted:
  assumes "selectedIndex h = Some sel" and "memoCallback h = Some (cb, [])"
    and "effectDeps h = Some [prev]"
  shows "WrappedListComponent items h =
     (list_output cb sel items, \<not> Object_is items prev,
      h\<lparr>effectDeps := Some [if Object_is items prev then prev else items],
        nextRef := Suc (Suc (nextRef h))\<rparr>)"
  using assms
  by (simp add: WrappedListComponent_def useState_def alloc_def useEffect_def
      useCallback_def list_output_def areHookInputsEqual_def)

lemma render_commit_initial:
  "render_commit items initial_hooks =
     (list_output 1 JNull items,
      \<lparr>selectedIndex = Some JNull, effectDeps = Some [items], memoCallback = Some (1, []), nextRef = 2\<rparr>)"
  by (simp add: render_commit_def WLC_initial setSelectedIndex_def)

lemma render_commit_mounted:
  assumes "selectedIndex h = Some sel" and "memoCallback h = Some (cb, [])"
    and "effectDeps h = Some [prev]"
  shows "\<exists>h'. render_commit items h =
           (list_output cb (if Object_is items prev then sel else JNull) items, h') \<and>
         selectedIndex h' = Some (if Object_is items prev then sel else JNull) \<and>
         memoCallback h' = Some (cb, []) \<and>
         effectDeps h' = Some [if Object_is items prev then prev else items]"
proof (cases "Object_is items prev")
  case True
  then show ?thesis using assms
    by (simp add: render_commit_def WLC_mounted [OF assms])
next
  case False
  let ?h1 = "h\<lparr>effectDeps := Some [items], nextRef := Suc (Suc (nextRef h))\<rparr>"
  let ?h2 = "setSelectedIndex JNull ?h1"
  have w2: "WrappedListComponent items ?h2 =
     (list_output cb JNull items, False, ?h2\<lparr>effectDeps := Some [items], nextRef := Suc (Suc (nextRef ?h2))\<rparr>)"
    using WLC_mounted [of ?h2 JNull cb items items] assms(2)
    by (cases items) (simp_all add: setSelectedIndex_def)
  show ?thesis
  proof (cases "sel = JNull")
    case True
    then show ?thesis using False assms
      by (simp add: render_commit_def WLC_mounted [OF assms] setSelectedIndex_def)
  next
    case ne: False
    then show ?thesis using False assms w2
      by (simp add: render_commit_def WLC_mounted [OF assms] Let_def) (simp add: setSelectedIndex_def)
  qed
qed

lemma Object_is_refl: "Object_is x x"
  by (cases x) simp_all

lemma Object_is_sym: "Object_is x y = Object_is y x"
  by (cases x; cases y) auto

lemma list_output_length:
  "list_output cb sel items = Some u \<Longrightarrow> length (children u) = length (elements_of items)"
  by (auto simp: list_output_def split: if_splits)

lemma list_output_None:
  "list_output cb sel items = None \<Longrightarrow> elements_of items = []"
  by (cases items) (auto simp: list_output_def split: if_splits)

lemma list_output_nth:
  "list_output cb sel items = Some u \<Longrightarrow> p < length (elements_of items) \<Longrightarrow>
   children u ! p =
     \<lparr>key = id' (elements_of items ! p),
      props = \<lparr>index = JNum (int p),
               isSelected = JBool (loose_eq sel (JNum (int p))),
               onClickHandler = Some (Fn cb handleClick),
               text_prop = Some (text' (elements_of items ! p))\<rparr>\<rparr>"
  by (auto simp: list_output_def nth_enumerate_eq split: if_splits)

lemma mounted_ok_mount: "mounted_ok (mount items)"
  by (simp add: mounted_ok_def mount_def render_commit_initial)

lemma step_Rerender_same:
  "Object_is (cur_items m) (defaultProps items) \<Longrightarrow> step m (Rerender items) = m"
  by simp

lemma step_Rerender_changed:
  assumes "mounted_ok m" and "\<not> Object_is (cur_items m) (defaultProps items)"
  shows "cur_items (step m (Rerender items)) = defaultProps items \<and>
         selectedIndex (hk (step m (Rerender items))) = Some JNull \<and>
         memoCallback (hk (step m (Rerender items))) = Some (1, []) \<and>
         effectDeps (hk (step m (Rerender items))) = Some [defaultProps items] \<and>
         dom (step m (Rerender items)) = list_output 1 JNull (defaultProps items)"
proof -
  from assms(1) obtain sel where s: "selectedIndex (hk m) = Some sel"
    and c: "memoCallback (hk m) = Some (1, [])" and d: "effectDeps (hk m) = Some [cur_items m]"
    by (auto simp: mounted_ok_def)
  have ne: "\<not> Object_is (defaultProps items) (cur_items m)"
    using assms(2) by (simp add: Object_is_sym)
  from render_commit_mounted [OF s c d, of "defaultProps items"] ne
  obtain h' where "render_commit (defaultProps items) (hk m) = (list_output 1 JNull (defaultProps items), h')"
    and "selectedIndex h' = Some JNull" and "memoCallback h' = Some (1, [])"
    and "effectDeps h' = Some [defaultProps items]"
    by auto
  then show ?thesis using assms(2) by simp
qed

lemma step_Click_row:
  assumes "mounted_ok m" and "p < length (elements_of (cur_items m))"
  shows "cur_items (step m (Click p)) = cur_items m \<and>
         selectedIndex (hk (step m (Click p))) = Some (JNum (int p)) \<and>
         memoCallback (hk (step m (Click p))) = Some (1, []) \<and>
         effectDeps (hk (step m (Click p))) = Some [cur_items m] \<and>
         dom (step m (Click p)) = list_output 1 (JNum (int p)) (cur_items m)"
proof -
  from assms(1) obtain sel where s: "selectedIndex (hk m) = Some sel"
    and c: "memoCallback (hk m) = Some (1, [])" and d: "effectDeps (hk m) = Some [cur_items m]"
    and o: "dom m = list_output 1 sel (cur_items m)"
    by (auto simp: mounted_ok_def)
  from assms(2) obtain u where u: "list_output 1 sel (cur_items m) = Some u"
    using list_output_None [of 1 sel "cur_items m"] by (cases "list_output 1 sel (cur_items m)") auto
  have len: "p < length (children u)"
    using list_output_length [OF u] assms(2) by simp
  let ?h = "setSelectedIndex (JNum (int p)) (hk m)"
  have clicked: "onClick (fst (WrappedSingleListItem (props (children u ! p)) (hk m))) (hk m) = Inr ?h"
    by (simp add: list_output_nth [OF u assms(2)] WrappedSingleListItem_def handleClick_def)
  show ?thesis
  proof (cases "sel = JNum (int p)")
    case True
    then show ?thesis using o u len clicked s c d
      by (simp add: setSelectedIndex_def)
  next
    case False
    have s': "selectedIndex ?h = Some (JNum (int p))" and c': "memoCallback ?h = Some (1, [])"
      and d': "effectDeps ?h = Some [cur_items m]"
      using c d by (simp_all add: setSelectedIndex_def)
    from render_commit_mounted [OF s' c' d', of "cur_items m"]
    obtain h' where "render_commit (cur_items m) ?h = (list_output 1 (JNum (int p)) (cur_items m), h')"
      and "selectedIndex h' = Some (JNum (int p))" and "memoCallback h' = Some (1, [])"
      and "effectDeps h' = Some [cur_items m]"
      by (auto simp: Object_is_refl)
    then show ?thesis using False o u len clicked s s'
      by simp
  qed
qed

lemma step_Click_nothing:
  assumes "mounted_ok m" and "\<not> p < length (elements_of (cur_items m))"
  shows "step m (Click p) = m"
proof -
  from assms(1) obtain sel where o: "dom m = list_output 1 sel (cur_items m)"
    by (auto simp: mounted_ok_def)
  show ?thesis
  proof (cases "dom m")
    case None
    then show ?thesis by simp
  next
    case (Some u)
    then have "length (children u) = length (elements_of (cur_items m))"
      using o list_output_length by metis
    then show ?thesis using Some assms(2) by simp
  qed
qed

lemma mounted_ok_step: "mounted_ok m \<Longrightarrow> mounted_ok (step m e)"
proof (cases e)
  case (Rerender items)
  assume ok: "mounted_ok m"
  show ?thesis
  proof (cases "Object_is (cur_items m) (defaultProps items)")
    case True
    then show ?thesis using ok Rerender by simp
  next
    case False
    from step_Rerender_changed [OF ok False] show ?thesis
      unfolding Rerender mounted_ok_def by simp
  qed
next
  case (Click p)
  assume ok: "mounted_ok m"
  show ?thesis
  proof (cases "p < length (elements_of (cur_items m))")
    case True
    from step_Click_row [OF ok True] True show ?thesis
      unfolding Click mounted_ok_def by auto
  next
    case False
    from step_Click_nothing [OF ok False] ok show ?thesis
      unfolding Click by simp
  qed
qed

lemma mounted_ok_run: "mounted_ok m \<Longrightarrow> mounted_ok (run m evs)"
  unfolding run_def by (induction evs arbitrary: m) (simp_all add: mounted_ok_step)

lemma mounted_ok_reachable: "mounted_ok (run (mount items) evs)"
  by (rule mounted_ok_run [OF mounted_ok_mount])

lemma map_enumerate_snd: "map (\<lambda>(i, x). f x) (enumerate n xs) = map f xs"
  by (induction xs arbitrary: n) simp_all

lemma map_enumerate_fst: "map (\<lambda>(i, x). g i) (enumerate n xs) = map g [n..<n + length xs]"
  by (rule nth_equalityI) (simp_all add: nth_enumerate_eq)

lemma list_output_flags:
  "list_output cb sel items = Some u \<Longrightarrow>
   map (\<lambda>e. isSelected (props e)) (children u) =
     map (\<lambda>i. JBool (loose_eq sel (JNum (int i)))) [0..<length (elements_of items)]"
  using map_enumerate_fst [of "\<lambda>i. JBool (loose_eq sel (JNum (int i)))" 0 "elements_of items"]
  by (auto simp: list_output_def comp_def case_prod_unfold split: if_splits)

lemma flags_mounted_ok:
  assumes "dom m = list_output cb sel (cur_items m)"
  shows "flags m = map (\<lambda>i. JBool (loose_eq sel (JNum (int i)))) [0..<length (elements_of (cur_items m))]"
proof (cases "dom m")
  case None
  then show ?thesis using assms list_output_None [of cb sel "cur_items m"] by (simp add: flags_def)
next
  case (Some u)
  then show ?thesis using assms list_output_flags [of cb sel "cur_items m" u] by (simp add: flags_def)
qed

lemma cur_items_mount: "cur_items (mount items) = defaultProps items"
  by (simp add: mount_def render_commit_initial)

lemma loose_eq_positions: "loose_eq (JNum (int p)) (JNum (int i)) = (i = p)"
  by auto

lemma WLC_output:
  "fst (WrappedListComponent items h) =
     list_output
       (case memoCallback h of None \<Rightarrow> Suc (nextRef h)
        | Some (kept, prev) \<Rightarrow> if prev = [] then kept else Suc (nextRef h))
       (case selectedIndex h of None \<Rightarrow> JNull | Some v \<Rightarrow> v) items"
  by (simp add: WrappedListComponent_def useState_def alloc_def useEffect_def
      useCallback_def list_output_def areHookInputsEqual_def
      split: option.splits prod.splits)

lemma list_output_keys:
  "list_output cb sel items = Some u \<Longrightarrow> map key (children u) = map id' (elements_of items)"
  using map_enumerate_snd [of id' 0 "elements_of items"]
  by (auto simp: list_output_def comp_def case_prod_unfold split: if_splits)

lemma list_output_texts:
  "list_output cb sel items = Some u \<Longrightarrow>
   map (\<lambda>e. text_prop (props e)) (children u) = map (\<lambda>x. Some (text' x)) (elements_of items)"
  using map_enumerate_snd [of "\<lambda>x. Some (text' x)" 0 "elements_of items"]
  by (auto simp: list_output_def comp_def case_prod_unfold split: if_splits)

lemma list_output_indices:
  "list_output cb sel items = Some u \<Longrightarrow>
   map (\<lambda>e. index (props e)) (children u) = map (\<lambda>i. JNum (int i)) [0..<length (elements_of items)]"
  using map_enumerate_fst [of "\<lambda>i. JNum (int i)" 0 "elements_of items"]
  by (auto simp: list_output_def comp_def case_prod_unfold split: if_splits)

lemma list_output_Some:
  "xs \<noteq> [] \<Longrightarrow> \<exists>u. list_output cb sel (ItemsArr r xs) = Some u \<and> textAlign u = ''left''"
  by (simp add: list_output_def)

lemma selectedIndex_mount: "selectedIndex (hk (mount items)) = Some JNull"
  by (simp add: mount_def render_commit_initial)

lemma step_Click_selection:
  assumes "mounted_ok m"
  shows "selectedIndex (hk (step m (Click p))) = selectedIndex (hk m) \<or>
         selectedIndex (hk (step m (Click p))) = Some (JNum (int p))"
proof (cases "p < length (elements_of (cur_items m))")
  case True
  then show ?thesis using step_Click_row [OF assms True] by simp
next
  case False
  then show ?thesis using step_Click_nothing [OF assms False] by simp
qed

lemma hk_click_1:
  "selectedIndex (hk (run (mount (ItemsArr 7 apple_banana)) [Click 1])) = Some (JNum 1) \<and>
   cur_items (run (mount (ItemsArr 7 apple_banana)) [Click 1]) = ItemsArr 7 apple_banana"
proof -
  have "(1::nat) < length (elements_of (cur_items (mount (ItemsArr 7 apple_banana))))"
    by (simp add: cur_items_mount apple_banana_def)
  from step_Click_row [OF mounted_ok_mount this] show ?thesis
    by (simp add: run_def cur_items_mount)
qed

lemma loose_is_strict_on_selection:
  "sel = JNull \<or> (\<exists>n. sel = JNum n) \<Longrightarrow> loose_eq sel (JNum i) = strict_eq sel (JNum i)"
  by auto

lemma render_flags_list_output:
  "render_flags items h =
     map (\<lambda>i. JBool (loose_eq (case selectedIndex h of None \<Rightarrow> JNull | Some v \<Rightarrow> v) (JNum (int i))))
       [0..<length (elements_of items)]"
proof -
  let ?cb = "case memoCallback h of None \<Rightarrow> Suc (nextRef h)
        | Some (kept, prev) \<Rightarrow> if prev = [] then kept else Suc (nextRef h)"
  let ?sel = "case selectedIndex h of None \<Rightarrow> JNull | Some v \<Rightarrow> v"
  show ?thesis
  proof (cases "list_output ?cb ?sel items")
    case None
    then show ?thesis using list_output_None [OF None]
      by (simp add: render_flags_def WLC_output)
  next
    case (Some u)
    then show ?thesis using list_output_flags [OF Some]
      by (simp add: render_flags_def WLC_output)
  qed
qed

lemma list_output_handlers:
  "list_output cb sel items = Some u \<Longrightarrow> e \<in> set (children u) \<Longrightarrow>
   onClickHandler (props e) = Some (Fn cb handleClick)"
  by (auto simp: list_output_def split: if_splits)

lemma kept_handler_mount: "kept_handler (hk (mount items)) = Some 1"
  by (simp add: kept_handler_def mount_def render_commit_initial)

lemma kept_handler_reachable: "kept_handler (hk (run (mount items) evs)) = Some 1"
  using mounted_ok_reachable [of items evs] by (simp add: kept_handler_def mounted_ok_def)

lemma rows_handlers:
  assumes "mounted_ok m" and "e \<in> set (rows m)"
  shows "onClickHandler (props e) = Some (Fn 1 handleClick)"
proof -
  from assms(1) obtain sel where d: "dom m = list_output 1 sel (cur_items m)"
    by (auto simp: mounted_ok_def)
  from assms(2) obtain u where u: "dom m = Some u" and e: "e \<in> set (children u)"
    by (cases "dom m") (auto simp: rows_def)
  from list_output_handlers [of 1 sel "cur_items m" u e] d u e show ?thesis by simp
qed

lemma render_handlers_mounted:
  assumes "mounted_ok m" and "r \<in> set (render_handlers items (hk m))"
  shows "r = Some 1"
proof -
  from assms(1) have c: "memoCallback (hk m) = Some (1, [])"
    by (simp add: mounted_ok_def)
  let ?sel = "case selectedIndex (hk m) of None \<Rightarrow> JNull | Some v \<Rightarrow> v"
  have o: "fst (WrappedListComponent items (hk m)) = list_output 1 ?sel items"
    by (simp add: WLC_output c)
  from assms(2) obtain u e where u: "list_output 1 ?sel items = Some u"
    and e: "e \<in> set (children u)" and r: "r = map_option fn_ref (onClickHandler (props e))"
    by (cases "list_output 1 ?sel items") (auto simp: render_handlers_def o)
  from list_output_handlers [OF u e] r show ?thesis by simp
qed

lemma rows_mount_apple_banana:
  "rows (mount (ItemsArr 7 apple_banana)) =
     [\<lparr>key = ''a'', props = \<lparr>index = JNum 0, isSelected = JBool False,
          onClickHandler = Some (Fn 1 handleClick), text_prop = Some ''Apple''\<rparr>\<rparr>,
      \<lparr>key = ''b'', props = \<lparr>index = JNum 1, isSelected = JBool False,
          onClickHandler = Some (Fn 1 handleClick), text_prop = Some ''Banana''\<rparr>\<rparr>]"
  by (simp add: rows_def mount_def render_commit_initial list_output_def apple_banana_def)

lemma render_handlers_cherry:
  "render_handlers (ItemsArr 8 cherry) (hk (mount (ItemsArr 7 apple_banana))) = [Some 1]"
  by (simp add: render_handlers_def WLC_output mount_def render_commit_initial list_output_def cherry_def)

lemma render_rows_world: "snd (render_rows es w) = w"
  by (induction es arbitrary: w) (simp_all add: WrappedSingleListItem_def case_prod_unfold)

lemma render_flags_after_click:
  "render_flags items (setSelectedIndex p h) =
     map (\<lambda>i. JBool (loose_eq p (JNum (int i)))) [0..<length (elements_of items)]"
  by (simp add: render_flags_list_output setSelectedIndex_def)


lemma call_cases:
  "call f v w = (case f of None \<Rightarrow> Inl TypeError | Some g \<Rightarrow> fn_body g v w)"
  by (cases f; cases "the f") simp_all

lemma dom_absent:
  assumes "mounted_ok m" and "items_is_null (cur_items m)"
  shows "dom m = None"
  using assms by (auto simp: mounted_ok_def list_output_def)

lemma step_Rerender_absent:
  assumes "mounted_ok m" and "items_is_null items"
  shows "dom (step m (Rerender items)) = None"
proof (cases "Object_is (cur_items m) (defaultProps items)")
  case True
  with assms(2) have "items_is_null (cur_items m)"
    by (cases items; cases "cur_items m") simp_all
  with True show ?thesis using dom_absent [OF assms(1)] by simp
next
  case False
  from step_Rerender_changed [OF assms(1) False] assms(2) show ?thesis
    by (cases items) (simp_all add: list_output_def)
qed

lemma log_failures_printed:
  "set (fst (log_failures fs logged)) = set fs - set logged"
proof (induction fs arbitrary: logged)
  case Nil
  show ?case by simp
next
  case (Cons f fs)
  show ?case
  proof (cases "f \<in> set logged")
    case True
    then show ?thesis using Cons [of logged] by auto
  next
    case False
    then show ?thesis using Cons [of "f # logged"] by (auto simp: case_prod_unfold Let_def)
  qed
qed

lemma log_failures_logged:
  "set (snd (log_failures fs logged)) = set logged \<union> set fs"
proof (induction fs arbitrary: logged)
  case Nil
  show ?case by simp
next
  case (Cons f fs)
  show ?case
  proof (cases "f \<in> set logged")
    case True
    then show ?thesis using Cons [of logged] by auto
  next
    case False
    then show ?thesis using Cons [of "f # logged"] by (auto simp: case_prod_unfold Let_def)
  qed
qed

lemma log_failures_distinct:
  "distinct (fst (log_failures fs logged))"
proof (induction fs arbitrary: logged)
  case Nil
  show ?case by simp
next
  case (Cons f fs)
  show ?case
  proof (cases "f \<in> set logged")
    case True
    then show ?thesis using Cons [of logged] by simp
  next
    case False
    then show ?thesis using Cons [of "f # logged"] log_failures_printed [of fs "f # logged"]
      by (simp add: case_prod_unfold Let_def)
  qed
qed

lemma checkPropTypes_all_missing:
  "checkPropTypes \<lparr>index = JUndefined, isSelected = JUndefined, onClickHandler = (None :: hooks fn option),
       text_prop = None\<rparr> [] =
     ([Required ''index'' JUndefined, Required ''isSelected'' JUndefined,
       Required ''onClickHandler'' JUndefined, Required ''text'' JUndefined],
      [Required ''text'' JUndefined, Required ''onClickHandler'' JUndefined,
       Required ''isSelected'' JUndefined, Required ''index'' JUndefined])"
  by (simp add: checkPropTypes_def propTypes_def)


lemma fst_filter_undeclared:
  "k \<in> set declared \<Longrightarrow> k \<notin> fst ` set (filter (\<lambda>(k, v). k \<notin> set declared) xs)"
  by auto























section \<open>The claims\<close>

text \<open>
  C1. Whatever a mounted List went through, a click on the row at position \<open>p\<close> of a
  non-empty collection makes the selection \<open>p\<close>: the row at \<open>p\<close> is handed
  \<open>isSelected = true\<close> and every other row \<open>false\<close>.
\<close>

theorem click_selects_row:
  assumes "p < length (elements_of (cur_items (run (mount items) evs)))"
  shows "selectedIndex (hk (step (run (mount items) evs) (Click p))) = Some (JNum (int p)) \<and>
         flags (step (run (mount items) evs) (Click p)) =
           map (\<lambda>i. JBool (i = p)) [0..<length (elements_of (cur_items (run (mount items) evs)))]"
proof -
  let ?m = "run (mount items) evs"
  note c = step_Click_row [OF mounted_ok_reachable assms]
  from c have d: "dom (step ?m (Click p)) = list_output 1 (JNum (int p)) (cur_items (step ?m (Click p)))"
    by simp
  have "flags (step ?m (Click p)) =
      map (\<lambda>i. JBool (loose_eq (JNum (int p)) (JNum (int i)))) [0..<length (elements_of (cur_items ?m))]"
    using flags_mounted_ok [OF d] c by simp
  then show ?thesis using c by (simp only: loose_eq_positions)
qed

theorem click_selects_row_witness:
  "(1::nat) < length (elements_of (cur_items (run (mount (ItemsArr 7 apple_banana)) []))) \<and>
   selectedIndex (hk (step (run (mount (ItemsArr 7 apple_banana)) []) (Click 1))) = Some (JNum 1) \<and>
   flags (step (run (mount (ItemsArr 7 apple_banana)) []) (Click 1)) = [JBool False, JBool True]"
proof -
  have h: "(1::nat) < length (elements_of (cur_items (run (mount (ItemsArr 7 apple_banana)) [])))"
    by (simp add: run_def cur_items_mount apple_banana_def)
  have l: "[0..<length (elements_of (cur_items (run (mount (ItemsArr 7 apple_banana)) [])))] = [0, 1]"
    by (simp add: run_def cur_items_mount apple_banana_def numeral_2_eq_2)
  from click_selects_row [OF h] h show ?thesis
    unfolding l by simp
qed

text \<open>
  C2. For a non-empty \<open>items\<close>, every render of the component returns a \<^verbatim>\<open><ul>\<close> with
  one element per entry, in the order of the collection; the key of each element is the
  \<open>id\<close> of its entry, its text the entry's text, its index the position.
\<close>

theorem one_row_per_entry:
  assumes "xs \<noteq> []"
  shows "\<exists>u. fst (WrappedListComponent (ItemsArr r xs) h) = Some u \<and>
           textAlign u = ''left'' \<and>
           length (children u) = length xs \<and>
           map key (children u) = map id' xs \<and>
           map (\<lambda>e. text_prop (props e)) (children u) = map (\<lambda>x. Some (text' x)) xs \<and>
           map (\<lambda>e. index (props e)) (children u) = map (\<lambda>i. JNum (int i)) [0..<length xs]"
proof -
  let ?cb = "case memoCallback h of None \<Rightarrow> Suc (nextRef h)
        | Some (kept, prev) \<Rightarrow> if prev = [] then kept else Suc (nextRef h)"
  let ?sel = "case selectedIndex h of None \<Rightarrow> JNull | Some v \<Rightarrow> v"
  from list_output_Some [OF assms] obtain u
    where u: "list_output ?cb ?sel (ItemsArr r xs) = Some u" and t: "textAlign u = ''left''"
    by blast
  have "fst (WrappedListComponent (ItemsArr r xs) h) = Some u"
    using u by (simp only: WLC_output)
  moreover have "length (children u) = length xs"
    using list_output_length [OF u] by simp
  moreover have "map key (children u) = map id' xs"
    using list_output_keys [OF u] by simp
  moreover have "map (\<lambda>e. text_prop (props e)) (children u) = map (\<lambda>x. Some (text' x)) xs"
    using list_output_texts [OF u] by simp
  moreover have "map (\<lambda>e. index (props e)) (children u) = map (\<lambda>i. JNum (int i)) [0..<length xs]"
    using list_output_indices [OF u] by simp
  ultimately show ?thesis using t by blast
qed

theorem one_row_per_entry_witness:
  "apple_banana \<noteq> [] \<and>
   (\<exists>u. fst (WrappedListComponent (ItemsArr 7 apple_banana) initial_hooks) = Some u \<and>
        length (children u) = 2 \<and> map key (children u) = [''a'', ''b''])"
proof -
  have h: "apple_banana \<noteq> []" by (simp add: apple_banana_def)
  from one_row_per_entry [OF h, of 7 initial_hooks] h show ?thesis
    by (auto simp: apple_banana_def)
qed

text \<open>
  C3. For a missing, a \<^verbatim>\<open>null\<close> and an empty \<open>items\<close>, every render of the component
  returns \<^verbatim>\<open>null\<close>: no \<^verbatim>\<open><ul>\<close>, not even one without rows. So does the mount, and
  so does a mounted List that is rendered with a missing or \<^verbatim>\<open>null\<close> \<open>items\<close>.
\<close>

theorem nothing_rendered:
  "fst (WrappedListComponent ItemsUndefined h) = None \<and>
   fst (WrappedListComponent ItemsNull h) = None \<and>
   fst (WrappedListComponent (ItemsArr r []) h) = None \<and>
   dom (mount ItemsUndefined) = None \<and>
   dom (mount ItemsNull) = None \<and>
   dom (mount (ItemsArr r [])) = None \<and>
   dom (step (run (mount items) evs) (Rerender ItemsUndefined)) = None \<and>
   dom (step (run (mount items) evs) (Rerender ItemsNull)) = None"
proof -
  have "dom (step (run (mount items) evs) (Rerender ItemsUndefined)) = None"
    by (rule step_Rerender_absent [OF mounted_ok_reachable]) simp
  moreover have "dom (step (run (mount items) evs) (Rerender ItemsNull)) = None"
    by (rule step_Rerender_absent [OF mounted_ok_reachable]) simp
  moreover have "fst (WrappedListComponent ItemsUndefined h) = None"
    and "fst (WrappedListComponent ItemsNull h) = None"
    and "fst (WrappedListComponent (ItemsArr r []) h) = None"
    by (simp_all add: WLC_output list_output_def)
  moreover have "dom (mount ItemsUndefined) = None" and "dom (mount ItemsNull) = None"
    and "dom (mount (ItemsArr r [])) = None"
    by (simp_all add: mount_def render_commit_initial list_output_def)
  ultimately show ?thesis by blast
qed


text \<open>
  C4. The mount leaves the selection \<^verbatim>\<open>null\<close>. Rendering a mounted List with an
  \<open>items\<close> that is not the same object as the current one leaves the selection
  \<^verbatim>\<open>null\<close>, whatever the elements of the new array (they may equal the old ones).
  And an event that takes the selection from a position to \<^verbatim>\<open>null\<close> is such a change
  of \<open>items\<close>.
\<close>

theorem items_change_resets_selection:
  "selectedIndex (hk (mount items)) = Some JNull \<and>
   (\<not> Object_is (cur_items (run (mount items) evs)) (defaultProps items') \<longrightarrow>
      selectedIndex (hk (step (run (mount items) evs) (Rerender items'))) = Some JNull) \<and>
   (selectedIndex (hk (run (mount items) evs)) \<noteq> Some JNull \<and>
    selectedIndex (hk (step (run (mount items) evs) e)) = Some JNull \<longrightarrow>
      (\<exists>new. e = Rerender new \<and> \<not> Object_is (cur_items (run (mount items) evs)) (defaultProps new)))"
proof -
  let ?m = "run (mount items) evs"
  have ok: "mounted_ok ?m" by (rule mounted_ok_reachable)
  have reset: "\<not> Object_is (cur_items ?m) (defaultProps items') \<longrightarrow>
      selectedIndex (hk (step ?m (Rerender items'))) = Some JNull"
    using step_Rerender_changed [OF ok] by blast
  have only: "selectedIndex (hk ?m) \<noteq> Some JNull \<and> selectedIndex (hk (step ?m e)) = Some JNull \<longrightarrow>
      (\<exists>new. e = Rerender new \<and> \<not> Object_is (cur_items ?m) (defaultProps new))"
  proof (cases e)
    case (Rerender new)
    show ?thesis
    proof (cases "Object_is (cur_items ?m) (defaultProps new)")
      case True
      then show ?thesis unfolding Rerender by simp
    next
      case False
      then show ?thesis unfolding Rerender by blast
    qed
  next
    case (Click p)
    from step_Click_selection [OF ok, of p] show ?thesis unfolding Click by auto
  qed
  from selectedIndex_mount reset only show ?thesis by blast
qed

theorem items_change_resets_selection_witness:
  "\<not> Object_is (cur_items (run (mount (ItemsArr 7 apple_banana)) [Click 1]))
       (defaultProps (ItemsArr 8 apple_banana)) \<and>
   selectedIndex (hk (run (mount (ItemsArr 7 apple_banana)) [Click 1])) \<noteq> Some JNull \<and>
   selectedIndex (hk (step (run (mount (ItemsArr 7 apple_banana)) [Click 1])
       (Rerender (ItemsArr 8 apple_banana)))) = Some JNull"
proof -
  have a: "\<not> Object_is (cur_items (run (mount (ItemsArr 7 apple_banana)) [Click 1]))
       (defaultProps (ItemsArr 8 apple_banana))"
    using hk_click_1 by simp
  have b: "selectedIndex (hk (run (mount (ItemsArr 7 apple_banana)) [Click 1])) \<noteq> Some JNull"
    using hk_click_1 by simp
  from items_change_resets_selection
    [of "ItemsArr 7 apple_banana" "[Click 1]" "ItemsArr 8 apple_banana" "Rerender (ItemsArr 8 apple_banana)"]
    a b
  show ?thesis by blast
qed

text \<open>
  C5. The flag is computed by \<^verbatim>\<open>selectedIndex == index\<close>. The selection of a mounted
  List is \<^verbatim>\<open>null\<close> or the integer position of a row, the index is an integer, and on
  these operands the comparison converts nothing and is the strict one: the flags on
  screen, and those of any next render, are those \<^verbatim>\<open>===\<close> gives. So are the flags of a
  render with any integer as the selection.
\<close>

theorem flag_is_strict_on_reachable:
  "(\<exists>sel. selectedIndex (hk (run (mount items) evs)) = Some sel \<and>
     (sel = JNull \<or> (\<exists>n. sel = JNum (int n))) \<and>
     flags (run (mount items) evs) = strict_flags sel (cur_items (run (mount items) evs)) \<and>
     render_flags items' (hk (run (mount items) evs)) = strict_flags sel items') \<and>
   render_flags items' (setSelectedIndex (JNum a) h) = strict_flags (JNum a) items'"
proof -
  let ?m = "run (mount items) evs"
  from mounted_ok_reachable [of items evs] obtain sel
    where s: "selectedIndex (hk ?m) = Some sel"
      and v: "sel = JNull \<or> (\<exists>n. sel = JNum (int n))"
      and d: "dom ?m = list_output 1 sel (cur_items ?m)"
    by (auto simp: mounted_ok_def)
  from v have e: "\<And>i. loose_eq sel (JNum i) = strict_eq sel (JNum i)"
    by (intro loose_is_strict_on_selection) auto
  have "flags ?m = strict_flags sel (cur_items ?m)"
    using flags_mounted_ok [OF d] by (simp add: strict_flags_def e)
  moreover have "render_flags items' (hk ?m) = strict_flags sel items'"
    by (simp add: render_flags_list_output s strict_flags_def e)
  moreover have "render_flags items' (setSelectedIndex (JNum a) h) = strict_flags (JNum a) items'"
    by (simp add: render_flags_after_click strict_flags_def)
  ultimately show ?thesis using s v by blast
qed

text \<open>
  C6. The function \<^verbatim>\<open>useCallback\<close> keeps at the mount is the one it keeps ever after,
  and it is the handler of every row on screen and of every row of any next render:
  the functions the later renders allocate are handed to no row.
\<close>

theorem handler_is_one_reference:
  "kept_handler (hk (mount items)) \<noteq> None \<and>
   kept_handler (hk (run (mount items) evs)) = kept_handler (hk (mount items)) \<and>
   (\<forall>e \<in> set (rows (run (mount items) evs)).
      map_option fn_ref (onClickHandler (props e)) = kept_handler (hk (mount items))) \<and>
   (\<forall>r \<in> set (render_handlers items' (hk (run (mount items) evs))).
      r = kept_handler (hk (mount items)))"
  using rows_handlers [OF mounted_ok_reachable [of items evs]]
    render_handlers_mounted [OF mounted_ok_reachable [of items evs], of _ items']
  by (simp add: kept_handler_mount kept_handler_reachable)

theorem handler_is_one_reference_witness:
  "map (\<lambda>e. map_option fn_ref (onClickHandler (props e))) (rows (run (mount (ItemsArr 7 apple_banana)) [])) =
     [kept_handler (hk (mount (ItemsArr 7 apple_banana))), kept_handler (hk (mount (ItemsArr 7 apple_banana)))] \<and>
   render_handlers (ItemsArr 8 cherry) (hk (run (mount (ItemsArr 7 apple_banana)) [])) =
     [kept_handler (hk (mount (ItemsArr 7 apple_banana)))]"
proof -
  have r: "run (mount (ItemsArr 7 apple_banana)) [] = mount (ItemsArr 7 apple_banana)"
    by (simp add: run_def)
  from handler_is_one_reference [of "ItemsArr 7 apple_banana" "[]" "ItemsArr 8 cherry"]
  show ?thesis
    unfolding r by (simp add: rows_mount_apple_banana render_handlers_cherry)
qed

text \<open>
  C7. Rendering a row leaves the world as it was, whatever the handler would do to it:
  the render does not call the handler. So does rendering all the rows of a list. A
  click on the rendered row calls the handler once, with the \<open>index\<close> the row was given.
\<close>

theorem render_never_calls_handler:
  "snd (WrappedSingleListItem \<lparr>index = i, isSelected = s, onClickHandler = Some (Fn r b), text_prop = t\<rparr> w) = w \<and>
   snd (render_rows es w) = w \<and>
   onClick (fst (WrappedSingleListItem \<lparr>index = i, isSelected = s, onClickHandler = Some (Fn r b), text_prop = t\<rparr> w)) w'
     = b i w'"
  by (simp add: render_rows_world) (simp add: WrappedSingleListItem_def)




text \<open>
  C9, as stated, fails for the handler: a row rendered without \<open>onClickHandler\<close> is
  warned of and renders, and a click on it raises a TypeError.
\<close>

theorem missing_handler_counterexample:
  "fst (checkPropTypes \<lparr>index = JNum 0, isSelected = JBool False, onClickHandler = (None :: unit fn option),
       text_prop = Some ''Apple''\<rparr> []) = [Required ''onClickHandler'' JUndefined] \<and>
   onClick (fst (WrappedSingleListItem
       \<lparr>index = JNum 0, isSelected = JBool False, onClickHandler = None, text_prop = Some ''Apple''\<rparr> ())) ()
     = Inl TypeError"
  by (simp add: checkPropTypes_def propTypes_def WrappedSingleListItem_def)

text \<open>
  C9, amended. A missing input fails the check of the declared inputs. The check prints
  one warning for each failure whose message it has not printed before, remembers the
  message, and raises nothing. The render goes on in every case, leaving the world as
  it was: without \<open>isSelected\<close> the row is red, without \<open>text\<close> it has no child. A
  click calls the handler with the \<open>index\<close> given (\<^verbatim>\<open>undefined\<close> when it is missing)
  and raises only what the handler raises; without a handler, the render still goes on
  and a click raises a TypeError.
\<close>

theorem missing_input_warns_and_renders:
  "(index p = JUndefined \<or> isSelected p = JUndefined \<or> onClickHandler p = None \<or> text_prop p = None
      \<longrightarrow> propTypes p \<noteq> []) \<and>
   set (fst (checkPropTypes p logged)) = set (propTypes p) - set logged \<and>
   distinct (fst (checkPropTypes p logged)) \<and>
   set (snd (checkPropTypes p logged)) = set logged \<union> set (propTypes p) \<and>
   (\<exists>l. WrappedSingleListItem p w = (l, w)) \<and>
   (isSelected p = JUndefined \<longrightarrow> backgroundColor (fst (WrappedSingleListItem p w)) = ''red'') \<and>
   (text_prop p = None \<longrightarrow> li_children (fst (WrappedSingleListItem p w)) = None) \<and>
   onClick (fst (WrappedSingleListItem p w)) w' =
     (case onClickHandler p of None \<Rightarrow> Inl TypeError | Some f \<Rightarrow> fn_body f (index p) w')"
proof -
  have "index p = JUndefined \<or> isSelected p = JUndefined \<or> onClickHandler p = None \<or> text_prop p = None
      \<longrightarrow> propTypes p \<noteq> []"
    by (auto simp: propTypes_def)
  moreover have "set (fst (checkPropTypes p logged)) = set (propTypes p) - set logged"
    by (simp add: checkPropTypes_def log_failures_printed)
  moreover have "distinct (fst (checkPropTypes p logged))"
    by (simp add: checkPropTypes_def log_failures_distinct)
  moreover have "set (snd (checkPropTypes p logged)) = set logged \<union> set (propTypes p)"
    by (simp add: checkPropTypes_def log_failures_logged)
  moreover have "(\<exists>l. WrappedSingleListItem p w = (l, w)) \<and>
   (isSelected p = JUndefined \<longrightarrow> backgroundColor (fst (WrappedSingleListItem p w)) = ''red'') \<and>
   (text_prop p = None \<longrightarrow> li_children (fst (WrappedSingleListItem p w)) = None) \<and>
   onClick (fst (WrappedSingleListItem p w)) w' =
     (case onClickHandler p of None \<Rightarrow> Inl TypeError | Some f \<Rightarrow> fn_body f (index p) w')"
    by (simp add: WrappedSingleListItem_def call_cases)
  ultimately show ?thesis by blast
qed

theorem missing_input_warns_and_renders_witness:
  "fst (checkPropTypes \<lparr>index = JUndefined, isSelected = JUndefined, onClickHandler = (None :: hooks fn option),
       text_prop = None\<rparr> []) =
     [Required ''index'' JUndefined, Required ''isSelected'' JUndefined,
      Required ''onClickHandler'' JUndefined, Required ''text'' JUndefined] \<and>
   fst (checkPropTypes \<lparr>index = JUndefined, isSelected = JUndefined, onClickHandler = (None :: hooks fn option),
       text_prop = None\<rparr>
     (snd (checkPropTypes \<lparr>index = JUndefined, isSelected = JUndefined, onClickHandler = (None :: hooks fn option),
       text_prop = None\<rparr> []))) = [] \<and>
   backgroundColor (fst (WrappedSingleListItem
       \<lparr>index = JUndefined, isSelected = JUndefined, onClickHandler = None,
        text_prop = None\<rparr> initial_hooks)) = ''red'' \<and>
   li_children (fst (WrappedSingleListItem
       \<lparr>index = JUndefined, isSelected = JUndefined, onClickHandler = None,
        text_prop = None\<rparr> initial_hooks)) = None \<and>
   onClick (fst (WrappedSingleListItem
       \<lparr>index = JUndefined, isSelected = JUndefined, onClickHandler = None,
        text_prop = None\<rparr> initial_hooks)) initial_hooks = Inl TypeError"
proof -
  let ?p = "\<lparr>index = JUndefined, isSelected = JUndefined, onClickHandler = (None :: hooks fn option),
       text_prop = None\<rparr>"
  note t = missing_input_warns_and_renders [of ?p "snd (checkPropTypes ?p [])" initial_hooks initial_hooks]
  have sub: "set (propTypes ?p) - set (snd (checkPropTypes ?p [])) = {}"
    by (simp add: checkPropTypes_all_missing propTypes_def)
  from t have "set (fst (checkPropTypes ?p (snd (checkPropTypes ?p [])))) =
      set (propTypes ?p) - set (snd (checkPropTypes ?p []))"
    by (rule conjunct2 [THEN conjunct1])
  with sub have "set (fst (checkPropTypes ?p (snd (checkPropTypes ?p [])))) = {}"
    by (simp only:)
  then have again: "fst (checkPropTypes ?p (snd (checkPropTypes ?p []))) = []"
    by simp
  have rest: "backgroundColor (fst (WrappedSingleListItem ?p initial_hooks)) = ''red'' \<and>
      li_children (fst (WrappedSingleListItem ?p initial_hooks)) = None \<and>
      onClick (fst (WrappedSingleListItem ?p initial_hooks)) initial_hooks = Inl TypeError"
    using t [THEN conjunct2, THEN conjunct2, THEN conjunct2, THEN conjunct2, THEN conjunct2]
    by simp
  from again rest show ?thesis
    by (simp add: checkPropTypes_all_missing)
qed




end
